theory Spec2Isabelle
  imports Main "HOL-Library.Word" "HOL-Library.Sublist"
begin

section \<open>JavaScript strings\<close>

text \<open>
  A JavaScript string is a sequence of UTF-16 code units; \<open>length\<close>, \<open>slice\<close>,
  \<open>trim\<close> and the regular expressions of the source all work on code units.
  \<open>js\<close> reads an ASCII literal as such a string.
\<close>

type_synonym jschar = "16 word"
type_synonym jsstring = "jschar list"

definition js :: "string \<Rightarrow> jsstring" where
  "js s = map of_char s"

text \<open>\<open>\d\<close> of a regular expression without the \<open>u\<close> flag: the code units 0-9.\<close>

definition isDigit :: "jschar \<Rightarrow> bool" where
  "isDigit c = (0x30 \<le> c \<and> c \<le> 0x39)"

text \<open>
  \<open>String.prototype.slice(start, stop)\<close> and \<open>slice(start)\<close> for the non-negative
  indices the source passes: positions past the end are clamped, and an empty range is
  the empty string.
\<close>

definition slice :: "nat \<Rightarrow> nat \<Rightarrow> 'a list \<Rightarrow> 'a list" where
  "slice start stop xs = take (stop - start) (drop start xs)"

definition slice_from :: "nat \<Rightarrow> 'a list \<Rightarrow> 'a list" where
  "slice_from start xs = drop start xs"

text \<open>
  White space and line terminators of ECMAScript, which \<open>String.prototype.trim\<close>
  removes from both ends.
\<close>

definition isWhiteSpace :: "jschar \<Rightarrow> bool" where
  "isWhiteSpace c =
     (c = 0x09 \<or> c = 0x0A \<or> c = 0x0B \<or> c = 0x0C \<or> c = 0x0D \<or> c = 0x20 \<or> c = 0xA0
      \<or> c = 0x1680 \<or> (0x2000 \<le> c \<and> c \<le> 0x200A) \<or> c = 0x2028 \<or> c = 0x2029
      \<or> c = 0x202F \<or> c = 0x205F \<or> c = 0x3000 \<or> c = 0xFEFF)"

definition js_trim :: "jsstring \<Rightarrow> jsstring" where
  "js_trim s = rev (dropWhile isWhiteSpace (rev (dropWhile isWhiteSpace s)))"

section \<open>Regular expressions of the form \<open>^ ... $\<close>\<close>

text \<open>
  The one regular expression of the source, \<open>/^\(\d{2}\) \d{4,5}-\d{4}$/\<close>, is a
  sequence of atoms, each with a quantifier \<open>{lo,hi}\<close> (a plain atom is \<open>{1,1}\<close>),
  between the anchors \<open>^\<close> and \<open>$\<close>. It has no flags, so the anchors are the two ends
  of the input and \<open>test\<close> is a match of the whole string.
\<close>

datatype atom = Lit jschar | DigitClass

datatype piece = Piece atom nat nat

type_synonym regex = "piece list"

fun atom_matches :: "atom \<Rightarrow> jschar \<Rightarrow> bool" where
  "atom_matches (Lit x) c = (c = x)"
| "atom_matches DigitClass c = isDigit c"

fun matches_from :: "regex \<Rightarrow> jsstring \<Rightarrow> bool" where
  "matches_from [] s = (s = [])"
| "matches_from (Piece a lo hi # ps) s =
     list_ex (\<lambda>k. k \<le> length s \<and> list_all (atom_matches a) (take k s)
                  \<and> matches_from ps (drop k s)) [lo..<Suc hi]"

definition regex_test :: "regex \<Rightarrow> jsstring \<Rightarrow> bool" where
  "regex_test r s = matches_from r s"

definition phone_regex :: regex where
  "phone_regex =
     [Piece (Lit 0x28) 1 1, Piece DigitClass 2 2, Piece (Lit 0x29) 1 1, Piece (Lit 0x20) 1 1,
      Piece DigitClass 4 5, Piece (Lit 0x2D) 1 1, Piece DigitClass 4 4]"

section \<open>The contact form: phone number formatting\<close>

text \<open>\<open>input.replace(/\D/g, "")\<close>: every code unit that is not a digit is removed.\<close>

definition strip_non_digits :: "jsstring \<Rightarrow> jsstring" where
  "strip_non_digits input = filter isDigit input"

definition formatPhoneNumber :: "jsstring \<Rightarrow> jsstring" where
  "formatPhoneNumber input =
     (let digits = strip_non_digits input in
      if length digits \<ge> 11 then
        js ''('' @ slice 0 2 digits @ js '') '' @ slice 2 7 digits @ js ''-'' @ slice 7 11 digits
      else if length digits \<ge> 10 then
        js ''('' @ slice 0 2 digits @ js '') '' @ slice 2 6 digits @ js ''-'' @ slice 6 10 digits
      else if length digits \<ge> 2 then
        js ''('' @ slice 0 2 digits @ js '') '' @ slice_from 2 digits
      else digits)"

section \<open>The contact form: validation schema\<close>

text \<open>
  A string schema of the validation library is the list of its checks, run in the order
  they were chained: \<open>trim\<close> replaces the value, the others add an issue with their
  message when the value at that point fails. The pattern behind \<open>email\<close> belongs to
  the library, not to this repository: the model takes it as the parameter \<open>isEmail\<close>.
\<close>

datatype string_check =
    CheckTrim
  | CheckMin nat jsstring
  | CheckEmail jsstring
  | CheckRegex regex jsstring

fun apply_check ::
  "(jsstring \<Rightarrow> bool) \<Rightarrow> jsstring list \<times> jsstring \<Rightarrow> string_check \<Rightarrow> jsstring list \<times> jsstring" where
  "apply_check isEmail (issues, v) CheckTrim = (issues, js_trim v)"
| "apply_check isEmail (issues, v) (CheckMin n m) =
     (if length v < n then issues @ [m] else issues, v)"
| "apply_check isEmail (issues, v) (CheckEmail m) =
     (if isEmail v then issues else issues @ [m], v)"
| "apply_check isEmail (issues, v) (CheckRegex r m) =
     (if regex_test r v then issues else issues @ [m], v)"

definition parse_string ::
  "(jsstring \<Rightarrow> bool) \<Rightarrow> string_check list \<Rightarrow> jsstring \<Rightarrow> jsstring list \<times> jsstring" where
  "parse_string isEmail checks v = foldl (apply_check isEmail) ([], v) checks"

text \<open>
  The four keys of the form. The same shape holds the schema (a list of checks per key),
  the data (a string per key) and the field errors (an optional message per key).
\<close>

record 'a contact_fields =
  name :: 'a
  email :: 'a
  number :: 'a
  message :: 'a

type_synonym ContactFormData = "jsstring contact_fields"
type_synonym FieldErrors = "jsstring option contact_fields"

definition msg_name :: jsstring where
  "msg_name = js ''Digite seu nome completo.''"

definition msg_email :: jsstring where
  "msg_email = js ''Digite um e-mail v'' @ [0xE1] @ js ''lido.''"

definition msg_number :: jsstring where
  "msg_number = js ''Digite um n'' @ [0xFA] @ js ''mero v'' @ [0xE1] @ js ''lido.''"

definition msg_message :: jsstring where
  "msg_message = js ''A mensagem deve ter pelo menos 5 caracteres.''"

definition contactSchema :: "string_check list contact_fields" where
  "contactSchema =
     \<lparr>name = [CheckTrim, CheckMin 2 msg_name],
      email = [CheckTrim, CheckEmail msg_email],
      number = [CheckRegex phone_regex msg_number],
      message = [CheckTrim, CheckMin 5 msg_message]\<rparr>"

text \<open>
  Parsing an object runs every key's schema; the resolver of the form library turns the
  outcome into either the parsed data (no issue at all) or, per key, the message of its
  first issue.
\<close>

definition safeParse ::
  "(jsstring \<Rightarrow> bool) \<Rightarrow> string_check list contact_fields \<Rightarrow> ContactFormData
     \<Rightarrow> (jsstring list \<times> jsstring) contact_fields" where
  "safeParse isEmail schema v =
     \<lparr>name = parse_string isEmail (name schema) (name v),
      email = parse_string isEmail (email schema) (email v),
      number = parse_string isEmail (number schema) (number v),
      message = parse_string isEmail (message schema) (message v)\<rparr>"

definition first_issue :: "jsstring list \<Rightarrow> jsstring option" where
  "first_issue issues = (case issues of [] \<Rightarrow> None | m # _ \<Rightarrow> Some m)"

definition no_errors :: FieldErrors where
  "no_errors = \<lparr>name = None, email = None, number = None, message = None\<rparr>"

definition zodResolver ::
  "(jsstring \<Rightarrow> bool) \<Rightarrow> string_check list contact_fields \<Rightarrow> ContactFormData
     \<Rightarrow> FieldErrors + ContactFormData" where
  "zodResolver isEmail schema v =
     (let r = safeParse isEmail schema v in
      if fst (name r) = [] \<and> fst (email r) = [] \<and> fst (number r) = [] \<and> fst (message r) = []
      then Inr \<lparr>name = snd (name r), email = snd (email r),
                number = snd (number r), message = snd (message r)\<rparr>
      else Inl \<lparr>name = first_issue (fst (name r)), email = first_issue (fst (email r)),
                number = first_issue (fst (number r)), message = first_issue (fst (message r))\<rparr>)"

text \<open>
  \<open>handleSubmit(onValid)\<close> of the form, whose resolver is \<open>zodResolver(contactSchema)\<close>:
  the field errors it leaves, and the result of \<open>onValid\<close> on the parsed data when it was
  invoked (\<open>None\<close> when it was not).
\<close>

definition handleSubmit ::
  "(jsstring \<Rightarrow> bool) \<Rightarrow> (ContactFormData \<Rightarrow> 'r) \<Rightarrow> ContactFormData \<Rightarrow> FieldErrors \<times> 'r option" where
  "handleSubmit isEmail onValid v =
     (case zodResolver isEmail contactSchema v of
        Inl errors \<Rightarrow> (errors, None)
      | Inr data \<Rightarrow> (no_errors, Some (onValid data)))"

section \<open>The contact form: submission\<close>

text \<open>
  \<open>JSON.stringify\<close> on the data object: its four string properties in the order of
  the schema's keys, each quoted as ECMAScript's \<open>QuoteJSONString\<close> does (the short
  escapes of backspace, tab, line feed, form feed, carriage return, the double quote and
  the backslash, \<open>\uXXXX\<close> for the other control characters and for a surrogate
  without its pair, every other code point as it is).
\<close>

definition hex_digit :: "jschar \<Rightarrow> jschar" where
  "hex_digit n = (if n < 10 then 0x30 + n else 0x61 + (n - 10))"

definition unicode_escape :: "jschar \<Rightarrow> jsstring" where
  "unicode_escape c =
     [0x5C, 0x75, hex_digit (drop_bit 12 c), hex_digit (take_bit 4 (drop_bit 8 c)),
      hex_digit (take_bit 4 (drop_bit 4 c)), hex_digit (take_bit 4 c)]"

definition isLeadingSurrogate :: "jschar \<Rightarrow> bool" where
  "isLeadingSurrogate c = (0xD800 \<le> c \<and> c \<le> 0xDBFF)"

definition isTrailingSurrogate :: "jschar \<Rightarrow> bool" where
  "isTrailingSurrogate c = (0xDC00 \<le> c \<and> c \<le> 0xDFFF)"

definition quote_unit :: "jschar \<Rightarrow> jsstring" where
  "quote_unit c =
     (if c = 0x08 then [0x5C, 0x62]
      else if c = 0x09 then [0x5C, 0x74]
      else if c = 0x0A then [0x5C, 0x6E]
      else if c = 0x0C then [0x5C, 0x66]
      else if c = 0x0D then [0x5C, 0x72]
      else if c = 0x22 then [0x5C, 0x22]
      else if c = 0x5C then [0x5C, 0x5C]
      else if c < 0x20 \<or> isLeadingSurrogate c \<or> isTrailingSurrogate c then unicode_escape c
      else [c])"

fun quote_units :: "jsstring \<Rightarrow> jsstring" where
  "quote_units (c # d # cs) =
     (if isLeadingSurrogate c \<and> isTrailingSurrogate d then c # d # quote_units cs
      else quote_unit c @ quote_units (d # cs))"
| "quote_units [c] = quote_unit c"
| "quote_units [] = []"

definition QuoteJSONString :: "jsstring \<Rightarrow> jsstring" where
  "QuoteJSONString s = [0x22] @ quote_units s @ [0x22]"

definition JSON_stringify :: "ContactFormData \<Rightarrow> jsstring" where
  "JSON_stringify data =
     js ''{'' @ QuoteJSONString (js ''name'') @ js '':'' @ QuoteJSONString (name data)
     @ js '','' @ QuoteJSONString (js ''email'') @ js '':'' @ QuoteJSONString (email data)
     @ js '','' @ QuoteJSONString (js ''number'') @ js '':'' @ QuoteJSONString (number data)
     @ js '','' @ QuoteJSONString (js ''message'') @ js '':'' @ QuoteJSONString (message data)
     @ js ''}''"

record request =
  url :: jsstring
  http_method :: jsstring
  headers :: "(jsstring \<times> jsstring) list"
  body :: jsstring

record response =
  status_code :: nat
  body_text :: jsstring

text \<open>\<open>response.ok\<close>: the status is in the range 200-299.\<close>

definition response_ok :: "response \<Rightarrow> bool" where
  "response_ok r = (200 \<le> status_code r \<and> status_code r \<le> 299)"

text \<open>What awaiting \<open>fetch\<close> gives: a response, or an exception.\<close>

datatype fetch_outcome = Resolved response | Rejected

datatype submission_status = Success | Error

text \<open>
  What one run of \<open>onSubmit\<close> does, in order: the state setters it calls, the request
  it hands to \<open>fetch\<close>, the \<open>reset()\<close> of the form and the \<open>console.error\<close> of the
  \<open>catch\<close> block.
\<close>

datatype effect =
    SetIsSubmitting bool
  | SetStatus "submission_status option"
  | Fetch request
  | Reset
  | ConsoleError

definition send_email_request :: "ContactFormData \<Rightarrow> request" where
  "send_email_request data =
     \<lparr>url = js ''/api/send-email'',
      http_method = js ''POST'',
      headers = [(js ''Content-Type'', js ''application/json'')],
      body = JSON_stringify data\<rparr>"

text \<open>\<open>onSubmit\<close> up to the \<open>await\<close>, and from the moment the request settles.\<close>

definition onSubmit_before :: "ContactFormData \<Rightarrow> effect list" where
  "onSubmit_before data = [SetIsSubmitting True, SetStatus None, Fetch (send_email_request data)]"

definition onSubmit_after :: "fetch_outcome \<Rightarrow> effect list" where
  "onSubmit_after outcome =
     (case outcome of
        Resolved r \<Rightarrow>
          [SetStatus (Some (if response_ok r then Success else Error))]
          @ (if response_ok r then [Reset] else [])
      | Rejected \<Rightarrow> [ConsoleError, SetStatus (Some Error)])
     @ [SetIsSubmitting False]"

definition onSubmit :: "ContactFormData \<Rightarrow> fetch_outcome \<Rightarrow> effect list" where
  "onSubmit data outcome = onSubmit_before data @ onSubmit_after outcome"

text \<open>
  The state of the mounted form: the two \<open>useState\<close> cells of the submission, and the
  values and errors the form library keeps. The form has no default values, so
  \<open>reset()\<close> empties every field and clears the errors.
\<close>

record form_state =
  isSubmitting :: bool
  status :: "submission_status option"
  fieldValues :: ContactFormData
  fieldErrors :: FieldErrors

definition empty_values :: ContactFormData where
  "empty_values = \<lparr>name = [], email = [], number = [], message = []\<rparr>"

definition initial_state :: form_state where
  "initial_state =
     \<lparr>isSubmitting = False, status = None, fieldValues = empty_values, fieldErrors = no_errors\<rparr>"

fun apply_effect :: "form_state \<Rightarrow> effect \<Rightarrow> form_state" where
  "apply_effect s (SetIsSubmitting b) = s\<lparr>isSubmitting := b\<rparr>"
| "apply_effect s (SetStatus x) = s\<lparr>status := x\<rparr>"
| "apply_effect s (Fetch r) = s"
| "apply_effect s Reset = s\<lparr>fieldValues := empty_values, fieldErrors := no_errors\<rparr>"
| "apply_effect s ConsoleError = s"

definition run_effects :: "form_state \<Rightarrow> effect list \<Rightarrow> form_state" where
  "run_effects s es = foldl apply_effect s es"

fun requests_of :: "effect list \<Rightarrow> request list" where
  "requests_of [] = []"
| "requests_of (Fetch r # es) = r # requests_of es"
| "requests_of (e # es) = requests_of es"

text \<open>
  What the component renders from its state: the error under each field, the submit
  button and the status line.
\<close>

record view =
  inline_errors :: FieldErrors
  submit_disabled :: bool
  submit_label :: jsstring
  status_line :: "jsstring option"

definition msg_success :: jsstring where
  "msg_success = js ''Mensagem enviada com sucesso!''"

definition msg_error :: jsstring where
  "msg_error = js ''Erro ao enviar. Tente novamente.''"

definition render :: "form_state \<Rightarrow> view" where
  "render s =
     \<lparr>inline_errors = fieldErrors s,
      submit_disabled = isSubmitting s,
      submit_label = (if isSubmitting s then js ''Enviando...'' else js ''Enviar''),
      status_line =
        (case status s of
           None \<Rightarrow> None
         | Some x \<Rightarrow> Some (if x = Success then msg_success else msg_error))\<rparr>"

section \<open>The contact form: events of the mounted form\<close>

text \<open>
  \<open>onBlur\<close> of the phone field: \<open>setValue("number", formatPhoneNumber(e.target.value))\<close>.
\<close>

definition number_onBlur :: "ContactFormData \<Rightarrow> ContactFormData" where
  "number_onBlur v = v\<lparr>number := formatPhoneNumber (number v)\<rparr>"

text \<open>
  The mounted form between its events. \<open>onSubmit\<close> is bound to the submit event of the
  form through \<open>handleSubmit\<close>, which is asynchronous: it takes the values of that moment,
  and only when the resolver has answered does it store the errors or call \<open>onSubmit\<close>,
  whose first statements set \<open>isSubmitting\<close> and issue the request. The button shows
  \<open>disabled\<close> as of the last render. So the page holds, next to the state of the form,
  the view rendered last (\<open>rendered\<close>), the values of the submit events whose validation
  has not finished (\<open>validating\<close>), the requests that have not settled (\<open>in_flight\<close>)
  and every request issued so far (\<open>sent\<close>).

  The events:
  \<^item> \<open>FieldsChanged\<close>: typing or leaving a field; the values and the field errors the
    form library holds afterwards (any values and errors: what the library revalidates
    on such an event is not fixed here);
  \<^item> \<open>ClickSubmit\<close>: a click on the submit button, which submits the form unless the
    button is shown disabled;
  \<^item> \<open>FormSubmit\<close>: a submit event on the form (what an enabled button causes, and
    what \<open>requestSubmit()\<close> or a dispatched event causes whatever the button shows);
  \<^item> \<open>ResolverDone\<close>: the oldest pending validation finishes;
  \<^item> \<open>Rerender\<close>: the component renders its current state;
  \<^item> \<open>Settled\<close>: the oldest pending request settles and its \<open>onSubmit\<close> resumes.
\<close>

datatype event =
    FieldsChanged ContactFormData FieldErrors
  | ClickSubmit
  | FormSubmit
  | ResolverDone
  | Rerender
  | Settled fetch_outcome

record page =
  form :: form_state
  rendered :: view
  validating :: "ContactFormData list"
  in_flight :: "request list"
  sent :: "request list"

definition initial_page :: page where
  "initial_page =
     \<lparr>form = initial_state, rendered = render initial_state, validating = [],
      in_flight = [], sent = []\<rparr>"

definition submit_form :: "page \<Rightarrow> page" where
  "submit_form p = p\<lparr>validating := validating p @ [fieldValues (form p)]\<rparr>"

definition resolver_done :: "(jsstring \<Rightarrow> bool) \<Rightarrow> page \<Rightarrow> page" where
  "resolver_done isEmail p =
     (case validating p of
        [] \<Rightarrow> p
      | v # vs \<Rightarrow>
          (case handleSubmit isEmail onSubmit_before v of
             (errors, None) \<Rightarrow> p\<lparr>form := (form p)\<lparr>fieldErrors := errors\<rparr>, validating := vs\<rparr>
           | (errors, Some effects) \<Rightarrow>
               p\<lparr>form := run_effects ((form p)\<lparr>fieldErrors := errors\<rparr>) effects,
                 validating := vs,
                 in_flight := in_flight p @ requests_of effects,
                 sent := sent p @ requests_of effects\<rparr>))"

fun step :: "(jsstring \<Rightarrow> bool) \<Rightarrow> page \<Rightarrow> event \<Rightarrow> page" where
  "step isEmail p (FieldsChanged v e) = p\<lparr>form := (form p)\<lparr>fieldValues := v, fieldErrors := e\<rparr>\<rparr>"
| "step isEmail p ClickSubmit = (if submit_disabled (rendered p) then p else submit_form p)"
| "step isEmail p FormSubmit = submit_form p"
| "step isEmail p ResolverDone = resolver_done isEmail p"
| "step isEmail p Rerender = p\<lparr>rendered := render (form p)\<rparr>"
| "step isEmail p (Settled outcome) =
     (case in_flight p of
        [] \<Rightarrow> p
      | r # rs \<Rightarrow> p\<lparr>form := run_effects (form p) (onSubmit_after outcome), in_flight := rs\<rparr>)"

definition run_events :: "(jsstring \<Rightarrow> bool) \<Rightarrow> event list \<Rightarrow> page" where
  "run_events isEmail evs = foldl (step isEmail) initial_page evs"

text \<open>
  A run in which every submit attempt is a click on the button, made when no validation
  is pending and the button on the screen shows the current \<open>isSubmitting\<close>.
\<close>

definition settled_view :: "page \<Rightarrow> bool" where
  "settled_view p = (validating p = [] \<and> submit_disabled (rendered p) = isSubmitting (form p))"

fun paced :: "page \<Rightarrow> event \<Rightarrow> bool" where
  "paced p ClickSubmit = settled_view p"
| "paced p FormSubmit = False"
| "paced p (FieldsChanged v e) = True"
| "paced p ResolverDone = True"
| "paced p Rerender = True"
| "paced p (Settled outcome) = True"

fun well_paced :: "(jsstring \<Rightarrow> bool) \<Rightarrow> page \<Rightarrow> event list \<Rightarrow> bool" where
  "well_paced isEmail p [] = True"
| "well_paced isEmail p (ev # evs) = (paced p ev \<and> well_paced isEmail (step isEmail p ev) evs)"

text \<open>
  A stand-in for the library's e-mail pattern, for the runs at concrete inputs: the
  address contains \<open>@\<close>.
\<close>

definition has_at_sign :: "jsstring \<Rightarrow> bool" where
  "has_at_sign s = (0x40 \<in> set s)"

section \<open>The particle background: the injected script\<close>

text \<open>
  The document as a tree of nodes. Every node carries its identity (\<open>nodeId\<close>): the
  cleanup holds on to the nodes it found and removes exactly those. The root is the
  document itself; \<open>querySelectorAll\<close> looks at its descendants, in tree order.
\<close>

datatype node =
  Element (nodeId: nat) (localName: jsstring) (attributes: "(jsstring \<times> jsstring) list")
    (childNodes: "node list")

fun descendants :: "node \<Rightarrow> node list" where
  "descendants (Element i n a cs) = concat (map (\<lambda>c. c # descendants c) cs)"

definition getAttribute :: "node \<Rightarrow> jsstring \<Rightarrow> jsstring option" where
  "getAttribute n k = map_of (attributes n) k"

text \<open>
  The selector \<open>type[attr*="value"]\<close>: an element of that type whose attribute is present
  and contains the (non-empty) value as a substring.
\<close>

datatype selector = TypeAttrContains jsstring jsstring jsstring

fun matches :: "selector \<Rightarrow> node \<Rightarrow> bool" where
  "matches (TypeAttrContains ty attr val) n =
     (localName n = ty \<and>
      (case getAttribute n attr of None \<Rightarrow> False | Some v \<Rightarrow> val \<noteq> [] \<and> sublist val v))"

definition querySelectorAll :: "node \<Rightarrow> selector \<Rightarrow> node list" where
  "querySelectorAll doc sel = filter (matches sel) (descendants doc)"

text \<open>
  \<open>parentNode\<close> of the node with identity \<open>c\<close>, as far as the document holds it: a node
  that is not in the document (any more) has no parent there, and removing it from a
  detached parent leaves the document as it is.
\<close>

fun parents_of :: "node \<Rightarrow> nat \<Rightarrow> nat list" where
  "parents_of (Element i n a cs) c =
     (if c \<in> set (map nodeId cs) then [i] else []) @ concat (map (\<lambda>x. parents_of x c) cs)"

definition parentNode :: "node \<Rightarrow> nat \<Rightarrow> nat option" where
  "parentNode doc c = (case parents_of doc c of [] \<Rightarrow> None | p # _ \<Rightarrow> Some p)"

fun removeChild :: "nat \<Rightarrow> nat \<Rightarrow> node \<Rightarrow> node" where
  "removeChild p c (Element i n a cs) =
     (if i = p then Element i n a (map (removeChild p c) (filter (\<lambda>x. nodeId x \<noteq> c) cs))
      else Element i n a (map (removeChild p c) cs))"

fun appendChild :: "nat \<Rightarrow> node \<Rightarrow> node \<Rightarrow> node" where
  "appendChild p new (Element i n a cs) =
     Element i n a (map (appendChild p new) cs @ (if i = p then [new] else []))"

definition cdn_url :: jsstring where
  "cdn_url = js ''https://cdn.jsdelivr.net/particles.js/2.0.0/particles.min.js''"

text \<open>
  \<open>loadParticlesScript\<close>: a new script element (identity \<open>fresh\<close>) with the CDN
  address as its \<open>src\<close>, marked \<open>async\<close>, appended to the body.
\<close>

definition loadParticlesScript :: "nat \<Rightarrow> nat \<Rightarrow> node \<Rightarrow> node" where
  "loadParticlesScript body_id fresh doc =
     appendChild body_id
       (Element fresh (js ''script'') [(js ''src'', cdn_url), (js ''async'', [])] []) doc"

text \<open>The cleanup of the effect: the scripts the selector finds, each removed from its parent.\<close>

definition particles_selector :: selector where
  "particles_selector = TypeAttrContains (js ''script'') (js ''src'') (js ''particles.min.js'')"

definition remove_script :: "node \<Rightarrow> node \<Rightarrow> node" where
  "remove_script doc script =
     (case parentNode doc (nodeId script) of
        None \<Rightarrow> doc
      | Some p \<Rightarrow> removeChild p (nodeId script) doc)"

definition cleanup :: "node \<Rightarrow> node" where
  "cleanup doc = foldl remove_script doc (querySelectorAll doc particles_selector)"

text \<open>A script element of the document whose source is the CDN address.\<close>

definition is_cdn_script :: "node \<Rightarrow> bool" where
  "is_cdn_script n = (localName n = js ''script'' \<and> getAttribute n (js ''src'') = Some cdn_url)"

text \<open>Node identities are unique in a document.\<close>

definition well_formed :: "node \<Rightarrow> bool" where
  "well_formed doc = distinct (map nodeId (doc # descendants doc))"

section \<open>Auxiliary notions of the proofs\<close>

text \<open>
  The invariant of a well-paced run: at most one submission is under way, in validation
  or as a pending request, and \<open>isSubmitting\<close> holds exactly while a request is pending.
\<close>

definition gate_inv :: "page \<Rightarrow> bool" where
  "gate_inv p =
     (length (validating p) + length (in_flight p) \<le> 1
      \<and> isSubmitting (form p) = (in_flight p \<noteq> []))"

text \<open>The identities of a tree: its root's and those of its descendants, in tree order.\<close>

definition ids :: "node \<Rightarrow> nat list" where
  "ids t = map nodeId (t # descendants t)"

section \<open>Properties of the phone number formatting\<close>

lemma js_lparen: "js ''('' = [0x28]"
  by (simp add: js_def)

lemma js_rparen_space: "js '') '' = [0x29, 0x20]"
  by (simp add: js_def)

lemma js_dash: "js ''-'' = [0x2D]"
  by (simp add: js_def)

lemma punctuation_not_digit:
  "\<not> isDigit 0x28" "\<not> isDigit 0x29" "\<not> isDigit 0x20" "\<not> isDigit 0x2D"
  by (simp_all add: isDigit_def)

lemma strip_all_digits: "list_all isDigit (strip_non_digits s)"
  by (simp add: strip_non_digits_def list_all_iff)

lemma filter_digits_take_drop:
  "list_all isDigit d \<Longrightarrow> filter isDigit (take n (drop m d)) = take n (drop m d)"
  by (rule filter_True) (auto simp: list_all_iff dest: in_set_takeD in_set_dropD)

lemma filter_digits_drop: "list_all isDigit d \<Longrightarrow> filter isDigit (drop m d) = drop m d"
  by (rule filter_True) (auto simp: list_all_iff dest: in_set_dropD)

lemma strip_strip: "strip_non_digits (strip_non_digits s) = strip_non_digits s"
  by (simp add: strip_non_digits_def)

lemma strip_take_strip: "strip_non_digits (take n (strip_non_digits s)) = take n (strip_non_digits s)"
  using filter_digits_take_drop [OF strip_all_digits, of n 0 s]
  by (simp add: strip_non_digits_def)

lemma take_three_parts:
  "take a d @ take b (drop a d) @ take c (drop (a + b) d) = take (a + b + c) d"
  by (metis add.commute take_add append.assoc)

text \<open>The digits of a formatted number are the first eleven digits of the input.\<close>

lemma strip_formatPhoneNumber:
  "strip_non_digits (formatPhoneNumber s) = take 11 (strip_non_digits s)"
proof -
  let ?d = "strip_non_digits s"
  have d: "list_all isDigit ?d" by (rule strip_all_digits)
  show ?thesis
    using take_three_parts [of 2 ?d 5 4] take_three_parts [of 2 ?d 4 4]
      filter_digits_take_drop [OF d] filter_digits_drop [OF d]
      filter_digits_take_drop [OF d, of _ 0] filter_digits_drop [OF d, of 0]
    by (auto simp: formatPhoneNumber_def Let_def strip_non_digits_def slice_def slice_from_def
        js_lparen js_rparen_space js_dash punctuation_not_digit)
qed

lemma formatPhoneNumber_cong:
  "strip_non_digits s = strip_non_digits t \<Longrightarrow> formatPhoneNumber s = formatPhoneNumber t"
  by (simp add: formatPhoneNumber_def)

lemma formatPhoneNumber_take_11:
  "formatPhoneNumber (take 11 (strip_non_digits s)) = formatPhoneNumber s"
  by (cases "11 \<le> length (strip_non_digits s)")
    (simp_all add: formatPhoneNumber_def Let_def strip_take_strip strip_strip slice_def
      drop_take min_def)

lemma formatPhoneNumber_twice: "formatPhoneNumber (formatPhoneNumber s) = formatPhoneNumber s"
proof -
  have "strip_non_digits (formatPhoneNumber s) = strip_non_digits (take 11 (strip_non_digits s))"
    by (simp add: strip_formatPhoneNumber strip_take_strip)
  then have "formatPhoneNumber (formatPhoneNumber s) = formatPhoneNumber (take 11 (strip_non_digits s))"
    by (rule formatPhoneNumber_cong)
  then show ?thesis by (simp add: formatPhoneNumber_take_11)
qed

lemma at_least_ten_cases:
  assumes "10 \<le> length (d::'a list)"
  obtains (ten) a b c e f g h i j k where "d = [a, b, c, e, f, g, h, i, j, k]"
  | (more) a b c e f g h i j k l r where "d = a # b # c # e # f # g # h # i # j # k # l # r"
proof -
  from assms obtain a b c e f g h i j k r where d: "d = a # b # c # e # f # g # h # i # j # k # r"
    by (auto simp: eval_nat_numeral Suc_le_length_iff)
  show thesis
  proof (cases r)
    case Nil
    with d show ?thesis by (intro ten) simp
  next
    case (Cons l r')
    with d show ?thesis by (intro more) simp
  qed
qed

lemma formatPhoneNumber_matches:
  assumes "10 \<le> length (strip_non_digits s)"
  shows "regex_test phone_regex (formatPhoneNumber s)"
proof -
  have dig: "list_all isDigit (strip_non_digits s)"
    by (rule strip_all_digits)
  from assms show ?thesis
  proof (cases rule: at_least_ten_cases)
    case ten
    with dig show ?thesis
      by (simp add: formatPhoneNumber_def slice_def js_def regex_test_def phone_regex_def)
  next
    case more
    with dig show ?thesis
      by (simp add: formatPhoneNumber_def slice_def js_def regex_test_def phone_regex_def)
  qed
qed

text \<open>
  Claim C3. \<open>formatPhoneNumber\<close> works on the digits left after every non-digit is
  removed: eleven digits give \<open>(DD) DDDDD-DDDD\<close>, ten digits give \<open>(DD) DDDD-DDDD\<close>,
  and fewer than two digits are returned as they are.
\<close>

theorem formatPhoneNumber_by_digit_count:
  "(strip_non_digits s = [a, b, c, d, e, f, g, h, i, j, k] \<longrightarrow>
      formatPhoneNumber s = js ''('' @ [a, b] @ js '') '' @ [c, d, e, f, g] @ js ''-'' @ [h, i, j, k])
   \<and> (strip_non_digits s = [a, b, c, d, e, f, g, h, i, j] \<longrightarrow>
      formatPhoneNumber s = js ''('' @ [a, b] @ js '') '' @ [c, d, e, f] @ js ''-'' @ [g, h, i, j])
   \<and> (length (strip_non_digits s) < 2 \<longrightarrow> formatPhoneNumber s = strip_non_digits s)"
  by (simp add: formatPhoneNumber_def slice_def)

theorem formatPhoneNumber_by_digit_count_witness:
  "strip_non_digits (js ''11 98765 4321'') = js ''11987654321''
   \<and> formatPhoneNumber (js ''11 98765 4321'') = js ''(11) 98765-4321''
   \<and> strip_non_digits (js ''11-9876.5432'') = js ''1198765432''
   \<and> formatPhoneNumber (js ''11-9876.5432'') = js ''(11) 9876-5432''
   \<and> length (strip_non_digits (js ''x7y'')) < 2
   \<and> formatPhoneNumber (js ''x7y'') = js ''7''"
proof -
  have s11: "strip_non_digits (js ''11 98765 4321'') = js ''11987654321''"
    and s10: "strip_non_digits (js ''11-9876.5432'') = js ''1198765432''"
    and s1: "strip_non_digits (js ''x7y'') = js ''7''"
    by (simp_all add: strip_non_digits_def js_def isDigit_def)
  show ?thesis
    using s11 s10 s1
      formatPhoneNumber_by_digit_count [of "js ''11 98765 4321''"
        "0x31" "0x31" "0x39" "0x38" "0x37" "0x36" "0x35" "0x34" "0x33" "0x32" "0x31"]
      formatPhoneNumber_by_digit_count [of "js ''11-9876.5432''"
        "0x31" "0x31" "0x39" "0x38" "0x37" "0x36" "0x35" "0x34" "0x33" "0x32"]
      formatPhoneNumber_by_digit_count [of "js ''x7y''"]
    by (simp add: js_def)
qed

text \<open>
  Claim C4. The three examples of the specification, and idempotence on every input
  with ten or eleven digits.
\<close>

theorem formatPhoneNumber_examples_idempotent:
  "formatPhoneNumber (js ''11987654321'') = js ''(11) 98765-4321''
   \<and> formatPhoneNumber (js ''1198765432'') = js ''(11) 9876-5432''
   \<and> formatPhoneNumber (js ''11'') = js ''(11) ''
   \<and> (\<forall>s. length (strip_non_digits s) = 10 \<or> length (strip_non_digits s) = 11 \<longrightarrow>
          formatPhoneNumber (formatPhoneNumber s) = formatPhoneNumber s)"
proof -
  have "formatPhoneNumber (js ''11987654321'') = js ''(11) 98765-4321''"
    and "formatPhoneNumber (js ''1198765432'') = js ''(11) 9876-5432''"
    and "formatPhoneNumber (js ''11'') = js ''(11) ''"
    by (simp_all add: formatPhoneNumber_def strip_non_digits_def js_def isDigit_def
        slice_def slice_from_def)
  then show ?thesis
    by (simp add: formatPhoneNumber_twice)
qed

theorem formatPhoneNumber_examples_idempotent_witness:
  "length (strip_non_digits (js ''(11) 98765-4321'')) = 11
   \<and> formatPhoneNumber (formatPhoneNumber (js ''(11) 98765-4321'')) =
       formatPhoneNumber (js ''(11) 98765-4321'')
   \<and> length (strip_non_digits (js ''(11) 9876-5432'')) = 10
   \<and> formatPhoneNumber (formatPhoneNumber (js ''(11) 9876-5432'')) =
       formatPhoneNumber (js ''(11) 9876-5432'')"
proof -
  have l11: "length (strip_non_digits (js ''(11) 98765-4321'')) = 11"
    and l10: "length (strip_non_digits (js ''(11) 9876-5432'')) = 10"
    by (simp_all add: strip_non_digits_def js_def isDigit_def)
  from formatPhoneNumber_examples_idempotent
  have idem: "\<And>s. length (strip_non_digits s) = 10 \<or> length (strip_non_digits s) = 11 \<Longrightarrow>
      formatPhoneNumber (formatPhoneNumber s) = formatPhoneNumber s"
    by blast
  from idem [of "js ''(11) 98765-4321''"] idem [of "js ''(11) 9876-5432''"] l11 l10
  show ?thesis by simp
qed

text \<open>
  Claim C9. \<open>formatPhoneNumber\<close> is idempotent on every string: the characters it
  inserts are not digits, so the second pass sees the digits the first one kept, and
  the result depends on the digits of the input only.
\<close>

theorem formatPhoneNumber_idempotent:
  "formatPhoneNumber (formatPhoneNumber s) = formatPhoneNumber s
   \<and> strip_non_digits (js ''() -'') = []
   \<and> strip_non_digits (formatPhoneNumber s) = take 11 (strip_non_digits s)
   \<and> formatPhoneNumber s = formatPhoneNumber (strip_non_digits s)"
proof -
  have "strip_non_digits (js ''() -'') = []"
    by (simp add: strip_non_digits_def js_def isDigit_def)
  moreover have "formatPhoneNumber s = formatPhoneNumber (strip_non_digits s)"
    by (rule formatPhoneNumber_cong) (simp add: strip_strip)
  ultimately show ?thesis
    using formatPhoneNumber_twice [of s] strip_formatPhoneNumber [of s] by simp
qed

text \<open>
  Claim C10. An input with ten or more digits is formatted into a string that the
  phone pattern of the schema accepts. Beyond eleven digits the input is not refused:
  the result is \<open>(DD) DDDDD-DDDD\<close> over its first eleven digits, whatever follows them,
  so the digits of the result are the first eleven digits of the input.
\<close>

theorem formatPhoneNumber_accepted:
  "10 \<le> length (strip_non_digits s) \<Longrightarrow>
     regex_test phone_regex (formatPhoneNumber s)
     \<and> strip_non_digits (formatPhoneNumber s) = take 11 (strip_non_digits s)
     \<and> (strip_non_digits s = a # b # c # d # e # f # g # h # i # j # k # l # rest \<longrightarrow>
          formatPhoneNumber s =
            js ''('' @ [a, b] @ js '') '' @ [c, d, e, f, g] @ js ''-'' @ [h, i, j, k])
     \<and> (11 < length (strip_non_digits s) \<longrightarrow>
          formatPhoneNumber s = formatPhoneNumber (take 11 (strip_non_digits s)))"
proof -
  assume ten: "10 \<le> length (strip_non_digits s)"
  have "formatPhoneNumber s =
      js ''('' @ [a, b] @ js '') '' @ [c, d, e, f, g] @ js ''-'' @ [h, i, j, k]"
    if "strip_non_digits s = a # b # c # d # e # f # g # h # i # j # k # l # rest"
    using that by (simp add: formatPhoneNumber_def slice_def)
  with ten show ?thesis
    by (simp add: formatPhoneNumber_matches formatPhoneNumber_take_11 strip_formatPhoneNumber)
qed

theorem formatPhoneNumber_accepted_witness:
  "10 \<le> length (strip_non_digits (js ''+55 (11) 98765-4321 ext. 7''))
   \<and> 11 < length (strip_non_digits (js ''+55 (11) 98765-4321 ext. 7''))
   \<and> strip_non_digits (js ''+55 (11) 98765-4321 ext. 7'') = js ''55119876543217''
   \<and> regex_test phone_regex (formatPhoneNumber (js ''+55 (11) 98765-4321 ext. 7''))
   \<and> formatPhoneNumber (js ''+55 (11) 98765-4321 ext. 7'') = js ''(55) 11987-6543''
   \<and> strip_non_digits (formatPhoneNumber (js ''+55 (11) 98765-4321 ext. 7'')) = js ''55119876543''
   \<and> formatPhoneNumber (js ''+55 (11) 98765-4321 ext. 7'') = formatPhoneNumber (js ''55119876543'')"
proof -
  let ?s = "js ''+55 (11) 98765-4321 ext. 7''"
  have digits: "strip_non_digits ?s = js ''55119876543217''"
    by (simp add: strip_non_digits_def js_def isDigit_def)
  then have ten: "10 \<le> length (strip_non_digits ?s)" and more: "11 < length (strip_non_digits ?s)"
    by (simp_all add: js_def)
  from digits have cons: "strip_non_digits ?s =
      0x35 # 0x35 # 0x31 # 0x31 # 0x39 # 0x38 # 0x37 # 0x36 # 0x35 # 0x34 # 0x33 # 0x32 # [0x31, 0x37]"
    and first: "take 11 (strip_non_digits ?s) = js ''55119876543''"
    by (simp_all add: js_def)
  note acc = formatPhoneNumber_accepted [OF ten, of "0x35" "0x35" "0x31" "0x31" "0x39" "0x38"
      "0x37" "0x36" "0x35" "0x34" "0x33" "0x32" "[0x31, 0x37]"]
  from acc have m: "regex_test phone_regex (formatPhoneNumber ?s)"
    by blast
  from acc cons have "formatPhoneNumber ?s =
      js ''('' @ [0x35, 0x35] @ js '') '' @ [0x31, 0x31, 0x39, 0x38, 0x37] @ js ''-'' @ [0x36, 0x35, 0x34, 0x33]"
    by blast
  then have v: "formatPhoneNumber ?s = js ''(55) 11987-6543''"
    by (simp add: js_def)
  from acc first have d: "strip_non_digits (formatPhoneNumber ?s) = js ''55119876543''"
    by simp
  from acc more first have t: "formatPhoneNumber ?s = formatPhoneNumber (js ''55119876543'')"
    by simp
  from ten more digits m v d t show ?thesis
    by (intro conjI)
qed

section \<open>Properties of the validation\<close>

lemma parse_trim_min: "parse_string isEmail [CheckTrim, CheckMin n m] v =
   (if length (js_trim v) < n then [m] else [], js_trim v)"
  by (simp add: parse_string_def)

lemma parse_trim_email: "parse_string isEmail [CheckTrim, CheckEmail m] v =
   (if isEmail (js_trim v) then [] else [m], js_trim v)"
  by (simp add: parse_string_def)

lemma parse_regex: "parse_string isEmail [CheckRegex r m] v =
   (if regex_test r v then [] else [m], v)"
  by (simp add: parse_string_def)

lemmas handleSubmit_unfold =
  handleSubmit_def zodResolver_def safeParse_def contactSchema_def Let_def
  parse_trim_min parse_trim_email parse_regex first_issue_def

text \<open>
  An input that passes every check reaches the handler, which gets the parsed data: the
  name, the address and the message trimmed, the phone value as it is.
\<close>

lemma valid_input_submitted:
  "2 \<le> length (js_trim (name v)) \<Longrightarrow> isEmail (js_trim (email v)) \<Longrightarrow>
   regex_test phone_regex (number v) \<Longrightarrow> 5 \<le> length (js_trim (message v)) \<Longrightarrow>
   handleSubmit isEmail onValid v =
     (no_errors, Some (onValid \<lparr>name = js_trim (name v), email = js_trim (email v),
                                number = number v, message = js_trim (message v)\<rparr>))"
  by (simp add: handleSubmit_unfold)

text \<open>
  Claim C1. Whatever the input: a name shorter than two characters after trimming, an
  address the e-mail check refuses after trimming, a phone value the pattern does not
  match, and a message shorter than five characters after trimming each leave their own
  message as the error of that field, and with any of them the submission handler is not
  invoked.
\<close>

theorem invalid_input_blocked:
  "(length (js_trim (name v)) < 2 \<longrightarrow>
      name (fst (handleSubmit isEmail onValid v)) = Some msg_name)
   \<and> (\<not> isEmail (js_trim (email v)) \<longrightarrow>
      email (fst (handleSubmit isEmail onValid v)) = Some msg_email)
   \<and> (\<not> regex_test phone_regex (number v) \<longrightarrow>
      number (fst (handleSubmit isEmail onValid v)) = Some msg_number)
   \<and> (length (js_trim (message v)) < 5 \<longrightarrow>
      message (fst (handleSubmit isEmail onValid v)) = Some msg_message)
   \<and> (length (js_trim (name v)) < 2 \<or> \<not> isEmail (js_trim (email v))
        \<or> \<not> regex_test phone_regex (number v) \<or> length (js_trim (message v)) < 5 \<longrightarrow>
      snd (handleSubmit isEmail onValid v) = None)"
  by (simp add: handleSubmit_unfold)

theorem invalid_input_blocked_witness:
  "length (js_trim (name \<lparr>name = js '' A '', email = js ''buzz.example.com'',
      number = js ''11987654321'', message = js '' oi  ''\<rparr>)) < 2
   \<and> \<not> (0x40 \<in> set (js_trim (email \<lparr>name = js '' A '', email = js ''buzz.example.com'',
      number = js ''11987654321'', message = js '' oi  ''\<rparr>)))
   \<and> \<not> regex_test phone_regex (number \<lparr>name = js '' A '', email = js ''buzz.example.com'',
      number = js ''11987654321'', message = js '' oi  ''\<rparr>)
   \<and> length (js_trim (message \<lparr>name = js '' A '', email = js ''buzz.example.com'',
      number = js ''11987654321'', message = js '' oi  ''\<rparr>)) < 5
   \<and> name (fst (handleSubmit (\<lambda>s. 0x40 \<in> set s) onSubmit_before
        \<lparr>name = js '' A '', email = js ''buzz.example.com'',
         number = js ''11987654321'', message = js '' oi  ''\<rparr>)) = Some msg_name
   \<and> email (fst (handleSubmit (\<lambda>s. 0x40 \<in> set s) onSubmit_before
        \<lparr>name = js '' A '', email = js ''buzz.example.com'',
         number = js ''11987654321'', message = js '' oi  ''\<rparr>)) = Some msg_email
   \<and> number (fst (handleSubmit (\<lambda>s. 0x40 \<in> set s) onSubmit_before
        \<lparr>name = js '' A '', email = js ''buzz.example.com'',
         number = js ''11987654321'', message = js '' oi  ''\<rparr>)) = Some msg_number
   \<and> message (fst (handleSubmit (\<lambda>s. 0x40 \<in> set s) onSubmit_before
        \<lparr>name = js '' A '', email = js ''buzz.example.com'',
         number = js ''11987654321'', message = js '' oi  ''\<rparr>)) = Some msg_message
   \<and> snd (handleSubmit (\<lambda>s. 0x40 \<in> set s) onSubmit_before
        \<lparr>name = js '' A '', email = js ''buzz.example.com'',
         number = js ''11987654321'', message = js '' oi  ''\<rparr>) = None"
proof -
  let ?v = "\<lparr>name = js '' A '', email = js ''buzz.example.com'',
      number = js ''11987654321'', message = js '' oi  ''\<rparr>"
  have n: "length (js_trim (name ?v)) < 2"
    and m: "length (js_trim (message ?v)) < 5"
    and e: "\<not> (0x40 \<in> set (js_trim (email ?v)))"
    by (simp_all add: js_trim_def js_def isWhiteSpace_def)
  have p: "\<not> regex_test phone_regex (number ?v)"
    by (simp add: regex_test_def phone_regex_def js_def isDigit_def)
  from invalid_input_blocked [of ?v "\<lambda>s. 0x40 \<in> set s" onSubmit_before] n m e p
  show ?thesis by blast
qed

section \<open>Properties of the submission\<close>

lemmas onSubmit_unfold =
  onSubmit_def onSubmit_before_def onSubmit_after_def run_effects_def

text \<open>
  Claim C2. A response in the 2xx range sets the status to success and empties every
  field. Any other response, and an exception of the request, set the status to error,
  leave the entered values as they are and show the one generic message; the state
  after a refused response is the state after an exception.
\<close>

theorem onSubmit_outcome:
  "(response_ok r \<longrightarrow>
      status (run_effects s (onSubmit data (Resolved r))) = Some Success
      \<and> fieldValues (run_effects s (onSubmit data (Resolved r))) = empty_values)
   \<and> (\<not> response_ok r \<longrightarrow>
      status (run_effects s (onSubmit data (Resolved r))) = Some Error
      \<and> fieldValues (run_effects s (onSubmit data (Resolved r))) = fieldValues s
      \<and> status_line (render (run_effects s (onSubmit data (Resolved r)))) = Some msg_error
      \<and> run_effects s (onSubmit data (Resolved r)) = run_effects s (onSubmit data Rejected))
   \<and> status (run_effects s (onSubmit data Rejected)) = Some Error
   \<and> fieldValues (run_effects s (onSubmit data Rejected)) = fieldValues s
   \<and> status_line (render (run_effects s (onSubmit data Rejected))) = Some msg_error"
  by (simp add: onSubmit_unfold render_def)

theorem onSubmit_outcome_witness:
  "response_ok \<lparr>status_code = 204, body_text = []\<rparr>
   \<and> status (run_effects
        \<lparr>isSubmitting = False, status = None,
         fieldValues = \<lparr>name = js ''Buzz'', email = js ''buzz@example.com'',
                         number = js ''(11) 98765-4321'', message = js ''Hello there''\<rparr>,
         fieldErrors = no_errors\<rparr>
        (onSubmit \<lparr>name = js ''Buzz'', email = js ''buzz@example.com'',
                    number = js ''(11) 98765-4321'', message = js ''Hello there''\<rparr>
           (Resolved \<lparr>status_code = 204, body_text = []\<rparr>))) = Some Success
   \<and> fieldValues (run_effects
        \<lparr>isSubmitting = False, status = None,
         fieldValues = \<lparr>name = js ''Buzz'', email = js ''buzz@example.com'',
                         number = js ''(11) 98765-4321'', message = js ''Hello there''\<rparr>,
         fieldErrors = no_errors\<rparr>
        (onSubmit \<lparr>name = js ''Buzz'', email = js ''buzz@example.com'',
                    number = js ''(11) 98765-4321'', message = js ''Hello there''\<rparr>
           (Resolved \<lparr>status_code = 204, body_text = []\<rparr>))) = empty_values
   \<and> \<not> response_ok \<lparr>status_code = 500, body_text = js ''oops''\<rparr>
   \<and> status (run_effects
        \<lparr>isSubmitting = False, status = None,
         fieldValues = \<lparr>name = js ''Buzz'', email = js ''buzz@example.com'',
                         number = js ''(11) 98765-4321'', message = js ''Hello there''\<rparr>,
         fieldErrors = no_errors\<rparr>
        (onSubmit \<lparr>name = js ''Buzz'', email = js ''buzz@example.com'',
                    number = js ''(11) 98765-4321'', message = js ''Hello there''\<rparr>
           (Resolved \<lparr>status_code = 500, body_text = js ''oops''\<rparr>))) = Some Error
   \<and> fieldValues (run_effects
        \<lparr>isSubmitting = False, status = None,
         fieldValues = \<lparr>name = js ''Buzz'', email = js ''buzz@example.com'',
                         number = js ''(11) 98765-4321'', message = js ''Hello there''\<rparr>,
         fieldErrors = no_errors\<rparr>
        (onSubmit \<lparr>name = js ''Buzz'', email = js ''buzz@example.com'',
                    number = js ''(11) 98765-4321'', message = js ''Hello there''\<rparr>
           (Resolved \<lparr>status_code = 500, body_text = js ''oops''\<rparr>))) =
       \<lparr>name = js ''Buzz'', email = js ''buzz@example.com'',
        number = js ''(11) 98765-4321'', message = js ''Hello there''\<rparr>
   \<and> status_line (render (run_effects
        \<lparr>isSubmitting = False, status = None,
         fieldValues = \<lparr>name = js ''Buzz'', email = js ''buzz@example.com'',
                         number = js ''(11) 98765-4321'', message = js ''Hello there''\<rparr>,
         fieldErrors = no_errors\<rparr>
        (onSubmit \<lparr>name = js ''Buzz'', email = js ''buzz@example.com'',
                    number = js ''(11) 98765-4321'', message = js ''Hello there''\<rparr>
           (Resolved \<lparr>status_code = 500, body_text = js ''oops''\<rparr>)))) = Some msg_error"
proof -
  let ?d = "\<lparr>name = js ''Buzz'', email = js ''buzz@example.com'',
             number = js ''(11) 98765-4321'', message = js ''Hello there''\<rparr>"
  let ?s = "\<lparr>isSubmitting = False, status = None, fieldValues = ?d, fieldErrors = no_errors\<rparr>"
  have ok: "response_ok \<lparr>status_code = 204, body_text = []\<rparr>"
    and bad: "\<not> response_ok \<lparr>status_code = 500, body_text = js ''oops''\<rparr>"
    by (simp_all add: response_ok_def)
  from onSubmit_outcome [of "\<lparr>status_code = 204, body_text = []\<rparr>" ?s ?d]
    onSubmit_outcome [of "\<lparr>status_code = 500, body_text = js ''oops''\<rparr>" ?s ?d] ok bad
  show ?thesis by simp
qed

text \<open>
  Claim C5. One run of the handler hands \<open>fetch\<close> exactly one request: a POST to
  \<open>/api/send-email\<close> with the JSON content type, whose body is the serialisation of the
  data. What the handler does is the same whatever the body of the response. The body
  sent for the data of the specification's example is spelled out.
\<close>

theorem onSubmit_single_request:
  \<open>requests_of (onSubmit data outcome) =
     [\<lparr>url = js ''/api/send-email'', http_method = js ''POST'',
       headers = [(js ''Content-Type'', js ''application/json'')],
       body = JSON_stringify data\<rparr>]
   \<and> onSubmit data (Resolved \<lparr>status_code = c, body_text = b\<rparr>) =
       onSubmit data (Resolved \<lparr>status_code = c, body_text = b'\<rparr>)
   \<and> JSON_stringify \<lparr>name = js ''Buzz Lightyear'', email = js ''buzz@example.com'',
        number = js ''(11) 98765-4321'', message = js ''Preciso de um or'' @ [0xE7] @ js ''amento''\<rparr> =
       js ''{"name":"Buzz Lightyear","email":"buzz@example.com","number":"(11) 98765-4321","message":"Preciso de um or''
       @ [0xE7] @ js ''amento"}''\<close>
proof -
  have \<open>JSON_stringify \<lparr>name = js ''Buzz Lightyear'', email = js ''buzz@example.com'',
        number = js ''(11) 98765-4321'', message = js ''Preciso de um or'' @ [0xE7] @ js ''amento''\<rparr> =
       js ''{"name":"Buzz Lightyear","email":"buzz@example.com","number":"(11) 98765-4321","message":"Preciso de um or''
       @ [0xE7] @ js ''amento"}''\<close>
    by (simp add: JSON_stringify_def QuoteJSONString_def quote_unit_def js_def
        isLeadingSurrogate_def isTrailingSurrogate_def)
  moreover have "requests_of (onSubmit data outcome) = [send_email_request data]"
    by (cases outcome) (simp_all add: onSubmit_def onSubmit_before_def onSubmit_after_def)
  ultimately show ?thesis
    by (simp add: send_email_request_def onSubmit_def onSubmit_before_def onSubmit_after_def response_ok_def)
qed

text \<open>
  Claim C6. Every run of the handler starts with \<open>isSubmitting\<close> set and the status
  cleared, so the request is issued in that state, and its last step clears
  \<open>isSubmitting\<close>: after a response of either kind and after an exception.
\<close>

theorem onSubmit_brackets:
  "take 2 (onSubmit data outcome) = [SetIsSubmitting True, SetStatus None]
   \<and> take 3 (onSubmit data outcome) = [SetIsSubmitting True, SetStatus None, Fetch (send_email_request data)]
   \<and> isSubmitting (run_effects s (take 3 (onSubmit data outcome)))
   \<and> status (run_effects s (take 3 (onSubmit data outcome))) = None
   \<and> last (onSubmit data outcome) = SetIsSubmitting False
   \<and> \<not> isSubmitting (run_effects s (onSubmit data outcome))"
  by (cases outcome) (simp_all add: onSubmit_unfold)

section \<open>Properties of the mounted form\<close>

lemma handleSubmit_cases:
  "handleSubmit isEmail onValid v = (errors, r) \<Longrightarrow> r = None \<or> (\<exists>d. r = Some (onValid d))"
  by (auto simp: handleSubmit_def split: sum.splits)

lemma run_onSubmit_before:
  "isSubmitting (run_effects s (onSubmit_before d))"
  "requests_of (onSubmit_before d) = [send_email_request d]"
  by (simp_all add: run_effects_def onSubmit_before_def)

lemma run_onSubmit_after: "\<not> isSubmitting (run_effects s (onSubmit_after outcome))"
  by (cases outcome) (simp_all add: run_effects_def onSubmit_after_def)

lemma gate_inv_resolver_done: "gate_inv p \<Longrightarrow> gate_inv (resolver_done isEmail p)"
proof (cases "validating p")
  case Nil
  assume "gate_inv p"
  with Nil show ?thesis by (simp add: resolver_done_def)
next
  case (Cons v vs)
  assume inv: "gate_inv p"
  with Cons have vs: "vs = []" and none: "in_flight p = []" and idle: "\<not> isSubmitting (form p)"
    by (simp_all add: gate_inv_def)
  obtain errors r where hs: "handleSubmit isEmail onSubmit_before v = (errors, r)"
    by (cases "handleSubmit isEmail onSubmit_before v")
  from handleSubmit_cases [OF hs] show ?thesis
  proof
    assume "r = None"
    with hs Cons vs none idle show ?thesis
      by (simp add: resolver_done_def gate_inv_def)
  next
    assume "\<exists>d. r = Some (onSubmit_before d)"
    then obtain d where "r = Some (onSubmit_before d)" ..
    with hs Cons vs none show ?thesis
      by (simp add: resolver_done_def gate_inv_def run_onSubmit_before)
  qed
qed

lemma gate_inv_step: "gate_inv p \<Longrightarrow> paced p ev \<Longrightarrow> gate_inv (step isEmail p ev)"
proof (cases ev)
  case (FieldsChanged v e)
  assume "gate_inv p"
  with FieldsChanged show ?thesis by (simp add: gate_inv_def)
next
  case ClickSubmit
  assume "gate_inv p" "paced p ev"
  with ClickSubmit show ?thesis
    by (auto simp: gate_inv_def settled_view_def submit_form_def)
next
  case FormSubmit
  assume "paced p ev"
  with FormSubmit show ?thesis by simp
next
  case ResolverDone
  assume "gate_inv p"
  with ResolverDone show ?thesis by (simp add: gate_inv_resolver_done)
next
  case Rerender
  assume "gate_inv p"
  with Rerender show ?thesis by (simp add: gate_inv_def)
next
  case (Settled outcome)
  assume inv: "gate_inv p"
  show ?thesis
  proof (cases "in_flight p")
    case Nil
    with inv Settled show ?thesis by simp
  next
    case (Cons r rs)
    with inv have "rs = []" "validating p = []" by (simp_all add: gate_inv_def)
    with Cons Settled show ?thesis
      by (simp add: gate_inv_def run_onSubmit_after)
  qed
qed

lemma gate_inv_foldl:
  "gate_inv p \<Longrightarrow> well_paced isEmail p evs \<Longrightarrow> gate_inv (foldl (step isEmail) p evs)"
  by (induction evs arbitrary: p) (simp_all add: gate_inv_step)

lemma gate_inv_initial: "gate_inv initial_page"
  by (simp add: gate_inv_def initial_page_def initial_state_def)

lemmas run_unfold =
  run_events_def initial_page_def initial_state_def empty_values_def number_onBlur_def
  formatPhoneNumber_def strip_non_digits_def js_def isDigit_def slice_def
  render_def handleSubmit_def zodResolver_def safeParse_def contactSchema_def Let_def
  parse_string_def first_issue_def js_trim_def isWhiteSpace_def regex_test_def phone_regex_def
  run_effects_def onSubmit_before_def no_errors_def submit_form_def resolver_done_def
  has_at_sign_def settled_view_def

text \<open>
  Claim C7, as the code has it. The submit button is rendered disabled exactly when
  \<open>isSubmitting\<close> holds in the rendered state, and a click on a button shown disabled
  changes nothing. When every submit attempt is a click on the button, made when no
  validation is pending and the button shows the current \<open>isSubmitting\<close>, at most one
  request is pending at any time, and \<open>isSubmitting\<close> holds while one is.
\<close>

theorem disabled_button_gate:
  "submit_disabled (render s) = isSubmitting s
   \<and> (submit_disabled (rendered p) \<longrightarrow> step isEmail p ClickSubmit = p)
   \<and> (well_paced isEmail initial_page evs \<longrightarrow>
        length (in_flight (run_events isEmail evs)) \<le> 1
        \<and> (in_flight (run_events isEmail evs) \<noteq> [] \<longrightarrow>
             isSubmitting (form (run_events isEmail evs))))"
proof -
  have "gate_inv (run_events isEmail evs)" if "well_paced isEmail initial_page evs"
    unfolding run_events_def using gate_inv_initial that by (rule gate_inv_foldl)
  then show ?thesis
    by (auto simp: gate_inv_def render_def)
qed

theorem disabled_button_gate_witness:
  "well_paced has_at_sign initial_page
     [FieldsChanged (number_onBlur \<lparr>name = js ''Buzz Lightyear'', email = js ''buzz@example.com'',
        number = js ''11987654321'', message = js ''Preciso de um orcamento''\<rparr>) no_errors,
      ClickSubmit, ResolverDone, Rerender, ClickSubmit]
   \<and> length (in_flight (run_events has_at_sign
     [FieldsChanged (number_onBlur \<lparr>name = js ''Buzz Lightyear'', email = js ''buzz@example.com'',
        number = js ''11987654321'', message = js ''Preciso de um orcamento''\<rparr>) no_errors,
      ClickSubmit, ResolverDone, Rerender, ClickSubmit])) = 1
   \<and> length (sent (run_events has_at_sign
     [FieldsChanged (number_onBlur \<lparr>name = js ''Buzz Lightyear'', email = js ''buzz@example.com'',
        number = js ''11987654321'', message = js ''Preciso de um orcamento''\<rparr>) no_errors,
      ClickSubmit, ResolverDone, Rerender, ClickSubmit])) = 1
   \<and> isSubmitting (form (run_events has_at_sign
     [FieldsChanged (number_onBlur \<lparr>name = js ''Buzz Lightyear'', email = js ''buzz@example.com'',
        number = js ''11987654321'', message = js ''Preciso de um orcamento''\<rparr>) no_errors,
      ClickSubmit, ResolverDone, Rerender, ClickSubmit]))
   \<and> submit_disabled (rendered (run_events has_at_sign
     [FieldsChanged (number_onBlur \<lparr>name = js ''Buzz Lightyear'', email = js ''buzz@example.com'',
        number = js ''11987654321'', message = js ''Preciso de um orcamento''\<rparr>) no_errors,
      ClickSubmit, ResolverDone, Rerender]))
   \<and> step has_at_sign (run_events has_at_sign
     [FieldsChanged (number_onBlur \<lparr>name = js ''Buzz Lightyear'', email = js ''buzz@example.com'',
        number = js ''11987654321'', message = js ''Preciso de um orcamento''\<rparr>) no_errors,
      ClickSubmit, ResolverDone, Rerender]) ClickSubmit =
     run_events has_at_sign
     [FieldsChanged (number_onBlur \<lparr>name = js ''Buzz Lightyear'', email = js ''buzz@example.com'',
        number = js ''11987654321'', message = js ''Preciso de um orcamento''\<rparr>) no_errors,
      ClickSubmit, ResolverDone, Rerender]"
proof -
  let ?v = "number_onBlur \<lparr>name = js ''Buzz Lightyear'', email = js ''buzz@example.com'',
        number = js ''11987654321'', message = js ''Preciso de um orcamento''\<rparr>"
  let ?evs4 = "[FieldsChanged ?v no_errors, ClickSubmit, ResolverDone, Rerender]"
  let ?evs5 = "[FieldsChanged ?v no_errors, ClickSubmit, ResolverDone, Rerender, ClickSubmit]"
  have wp: "well_paced has_at_sign initial_page ?evs5"
    by (simp add: run_unfold)
  have one: "length (in_flight (run_events has_at_sign ?evs5)) = 1"
    and sent: "length (sent (run_events has_at_sign ?evs5)) = 1"
    and dis: "submit_disabled (rendered (run_events has_at_sign ?evs4))"
    by (simp_all add: run_unfold)
  note gate = disabled_button_gate [of initial_state "run_events has_at_sign ?evs4" has_at_sign ?evs5]
  from one have pending: "in_flight (run_events has_at_sign ?evs5) \<noteq> []"
    by (cases "in_flight (run_events has_at_sign ?evs5)") simp_all
  from gate wp pending have busy: "isSubmitting (form (run_events has_at_sign ?evs5))"
    by blast
  from gate dis have ignored:
    "step has_at_sign (run_events has_at_sign ?evs4) ClickSubmit = run_events has_at_sign ?evs4"
    by blast
  from wp one sent busy dis ignored show ?thesis
    by (intro conjI)
qed

text \<open>
  Claim C7 as stated fails: \<open>onSubmit\<close> has no guard of its own. Two clicks before the
  first validation has finished put two requests in flight; and with a request pending,
  \<open>isSubmitting\<close> set and the button rendered disabled, a submit event on the form
  puts a second request in flight.
\<close>

theorem second_submit_second_request:
  "\<not> length (in_flight (run_events has_at_sign
     [FieldsChanged (number_onBlur \<lparr>name = js ''Buzz Lightyear'', email = js ''buzz@example.com'',
        number = js ''11987654321'', message = js ''Preciso de um orcamento''\<rparr>) no_errors,
      ClickSubmit, ClickSubmit, ResolverDone, ResolverDone])) \<le> 1
   \<and> length (sent (run_events has_at_sign
     [FieldsChanged (number_onBlur \<lparr>name = js ''Buzz Lightyear'', email = js ''buzz@example.com'',
        number = js ''11987654321'', message = js ''Preciso de um orcamento''\<rparr>) no_errors,
      ClickSubmit, ClickSubmit, ResolverDone, ResolverDone])) = 2
   \<and> isSubmitting (form (run_events has_at_sign
     [FieldsChanged (number_onBlur \<lparr>name = js ''Buzz Lightyear'', email = js ''buzz@example.com'',
        number = js ''11987654321'', message = js ''Preciso de um orcamento''\<rparr>) no_errors,
      ClickSubmit, ResolverDone, Rerender]))
   \<and> submit_disabled (rendered (run_events has_at_sign
     [FieldsChanged (number_onBlur \<lparr>name = js ''Buzz Lightyear'', email = js ''buzz@example.com'',
        number = js ''11987654321'', message = js ''Preciso de um orcamento''\<rparr>) no_errors,
      ClickSubmit, ResolverDone, Rerender]))
   \<and> length (in_flight (run_events has_at_sign
     [FieldsChanged (number_onBlur \<lparr>name = js ''Buzz Lightyear'', email = js ''buzz@example.com'',
        number = js ''11987654321'', message = js ''Preciso de um orcamento''\<rparr>) no_errors,
      ClickSubmit, ResolverDone, Rerender])) = 1
   \<and> length (in_flight (run_events has_at_sign
     [FieldsChanged (number_onBlur \<lparr>name = js ''Buzz Lightyear'', email = js ''buzz@example.com'',
        number = js ''11987654321'', message = js ''Preciso de um orcamento''\<rparr>) no_errors,
      ClickSubmit, ResolverDone, Rerender, FormSubmit, ResolverDone])) = 2"
  by (simp add: run_unfold)

section \<open>Properties of the cleanup of the particle background\<close>

lemma ids_Element: "ids (Element i n a cs) = i # concat (map ids cs)"
  by (simp add: ids_def [abs_def] map_concat comp_def)

lemma well_formed_ids: "well_formed doc = distinct (ids doc)"
  by (simp add: well_formed_def ids_def)

lemma removeChild_nodeId [simp]: "nodeId (removeChild p c t) = nodeId t"
  by (cases t) simp

lemma removeChild_localName [simp]: "localName (removeChild p c t) = localName t"
  by (cases t) simp

lemma removeChild_attributes [simp]: "attributes (removeChild p c t) = attributes t"
  by (cases t) simp

lemma removeChild_absent: "p \<notin> set (ids t) \<Longrightarrow> removeChild p c t = t"
proof (induction t)
  case (Element i n a cs)
  then have "\<And>x. x \<in> set cs \<Longrightarrow> removeChild p c x = x"
    by (auto simp: ids_Element)
  with Element.prems show ?case
    by (simp add: ids_Element map_idI)
qed

lemma descendants_removeChild:
  "y \<in> set (descendants (removeChild p c t)) \<Longrightarrow> \<exists>x \<in> set (descendants t). y = removeChild p c x"
proof (induction t arbitrary: y)
  case (Element i n a cs)
  from Element.prems obtain z where z: "z \<in> set cs"
    and y: "y = removeChild p c z \<or> y \<in> set (descendants (removeChild p c z))"
    by (auto split: if_splits)
  from y show ?case
  proof
    assume "y = removeChild p c z"
    with z show ?thesis by auto
  next
    assume "y \<in> set (descendants (removeChild p c z))"
    from Element.IH [OF z this] obtain x where "x \<in> set (descendants z)" "y = removeChild p c x"
      by blast
    with z show ?thesis by auto
  qed
qed

lemma subseq_concat_filter:
  "(\<And>x. x \<in> set cs \<Longrightarrow> subseq (f x) (g x)) \<Longrightarrow>
   subseq (concat (map f (filter P cs))) (concat (map g cs))"
proof (induction cs)
  case Nil
  then show ?case by simp
next
  case (Cons x cs)
  then have rest: "subseq (concat (map f (filter P cs))) (concat (map g cs))"
    by simp
  from Cons.prems have hd: "subseq (f x) (g x)" by simp
  show ?case
  proof (cases "P x")
    case True
    with hd rest show ?thesis by (simp add: list_emb_append_mono)
  next
    case False
    with rest show ?thesis by (simp add: list_emb_append2)
  qed
qed

lemma subseq_ids_removeChild: "subseq (ids (removeChild p c t)) (ids t)"
proof (induction t)
  case (Element i n a cs)
  have a: "subseq (concat (map (\<lambda>x. ids (removeChild p c x)) (filter (\<lambda>x. nodeId x \<noteq> c) cs)))
             (concat (map ids cs))"
    by (rule subseq_concat_filter) (rule Element.IH)
  have b: "subseq (concat (map (\<lambda>x. ids (removeChild p c x)) (filter (\<lambda>x. True) cs)))
             (concat (map ids cs))"
    by (rule subseq_concat_filter) (rule Element.IH)
  from a b show ?case
    by (simp add: ids_Element comp_def)
qed

lemma distinct_ids_removeChild: "distinct (ids t) \<Longrightarrow> distinct (ids (removeChild p c t))"
  using subseq_ids_removeChild [of p c t] subseqs_distinctD [of "ids (removeChild p c t)" "ids t"]
  by simp

lemma parents_of_ids: "set (parents_of t c) \<subseteq> set (ids t)"
proof (induction t)
  case (Element i n a cs)
  then show ?case by (fastforce simp: ids_Element)
qed

lemma parents_of_descendant: "parents_of t c \<noteq> [] \<Longrightarrow> c \<in> nodeId ` set (descendants t)"
proof (induction t)
  case (Element i n a cs)
  show ?case
  proof (cases "c \<in> nodeId ` set cs")
    case True
    then show ?thesis by auto
  next
    case False
    with Element.prems obtain x where x: "x \<in> set cs" "parents_of x c \<noteq> []"
      by auto
    from Element.IH [OF this] x(1) show ?thesis by auto
  qed
qed

lemma descendant_parents_of: "c \<in> nodeId ` set (descendants t) \<Longrightarrow> parents_of t c \<noteq> []"
proof (induction t)
  case (Element i n a cs)
  show ?case
  proof (cases "c \<in> nodeId ` set cs")
    case True
    then show ?thesis by simp
  next
    case False
    with Element.prems obtain x where x: "x \<in> set cs" "c \<in> nodeId ` set (descendants x)"
      by auto
    from Element.IH [OF this] x(1) show ?thesis by auto
  qed
qed

lemma concat_map_hd:
  "concat (map f cs) = p # ps \<Longrightarrow> \<exists>x \<in> set cs. \<exists>qs. f x = p # qs"
proof (induction cs)
  case Nil
  then show ?case by simp
next
  case (Cons x cs)
  then show ?case by (cases "f x") auto
qed

lemma distinct_children_disjoint:
  "distinct (concat (map f cs)) \<Longrightarrow> x \<in> set cs \<Longrightarrow> y \<in> set cs \<Longrightarrow> x \<noteq> y \<Longrightarrow>
   set (f x) \<inter> set (f y) = {}"
  by (induction cs) auto

lemma nodeId_in_ids: "nodeId t \<in> set (ids t)"
  by (simp add: ids_def)

lemma descendant_ids_in_ids: "nodeId ` set (descendants t) \<subseteq> set (ids t)"
  by (auto simp: ids_def)

lemma descendants_removeChild_ids:
  "nodeId ` set (descendants (removeChild p c t)) \<subseteq> nodeId ` set (descendants t)"
  using descendants_removeChild [of _ p c t] by fastforce

lemma not_descendant_ElementI:
  assumes "\<And>x. x \<in> set cs \<Longrightarrow> c \<noteq> nodeId x \<and> c \<notin> nodeId ` set (descendants x)"
  shows "c \<notin> nodeId ` set (descendants (Element i n a cs))"
  using assms by auto

lemma removed_child_gone:
  "distinct (ids t) \<Longrightarrow> parents_of t c = p # ps \<Longrightarrow>
   c \<notin> nodeId ` set (descendants (removeChild p c t))"
proof (induction t arbitrary: ps)
  case (Element i n a cs)
  from Element.prems(1) have di: "i \<notin> set (concat (map ids cs))"
    and dc: "distinct (concat (map ids cs))"
    by (simp_all add: ids_Element)
  have dx: "distinct (ids x)" if "x \<in> set cs" for x
    using dc that by (auto simp: distinct_concat_iff)
  show ?case
  proof (cases "c \<in> nodeId ` set cs")
    case True
    with Element.prems(2) have p: "p = i" by simp
    from True obtain x0 where x0: "x0 \<in> set cs" "nodeId x0 = c" by auto
    have same: "removeChild i c x = x" if "x \<in> set cs" for x
      using di that by (intro removeChild_absent) auto
    have "c \<notin> set (ids x)" if "x \<in> set cs" "nodeId x \<noteq> c" for x
    proof -
      from that x0 have "x \<noteq> x0" by auto
      with distinct_children_disjoint [OF dc that(1) x0(1)]
      have "set (ids x) \<inter> set (ids x0) = {}" by simp
      with nodeId_in_ids [of x0] x0(2) show ?thesis by auto
    qed
    then have "c \<notin> nodeId ` set (descendants x)" "c \<noteq> nodeId x"
      if "x \<in> set cs" "nodeId x \<noteq> c" for x
      using that descendant_ids_in_ids [of x] by auto
    with p same show ?thesis
      by (auto simp: map_idI)
  next
    case False
    with Element.prems(2) have "concat (map (\<lambda>x. parents_of x c) cs) = p # ps" by simp
    from concat_map_hd [OF this] obtain x1 qs where x1: "x1 \<in> set cs" "parents_of x1 c = p # qs"
      by blast
    from x1 parents_of_ids [of x1 c] have "p \<in> set (ids x1)" by auto
    with x1(1) di have ip: "i \<noteq> p" by auto
    from x1 have cx1: "c \<in> set (ids x1)"
      using parents_of_descendant [of x1 c] descendant_ids_in_ids [of x1] by auto
    have deep: "c \<notin> nodeId ` set (descendants (removeChild p c x))" if x: "x \<in> set cs" for x
    proof (cases "x = x1")
      case True
      with Element.IH [OF x1(1) dx [OF x1(1)] x1(2)] show ?thesis by simp
    next
      case False
      from distinct_children_disjoint [OF dc x x1(1) False] cx1
      have "c \<notin> set (ids x)" by auto
      with descendant_ids_in_ids [of x] descendants_removeChild_ids [of p c x]
      show ?thesis by blast
    qed
    have top: "c \<noteq> nodeId (removeChild p c x)" if "x \<in> set cs" for x
      using False that by auto
    have "c \<notin> nodeId ` set (descendants (Element i n a (map (removeChild p c) cs)))"
    proof (rule not_descendant_ElementI)
      fix y assume "y \<in> set (map (removeChild p c) cs)"
      then obtain x where x: "x \<in> set cs" and y: "y = removeChild p c x"
        by auto
      from top [OF x] deep [OF x] y
      show "c \<noteq> nodeId y \<and> c \<notin> nodeId ` set (descendants y)"
        by simp
    qed
    with ip show ?thesis by simp
  qed
qed


lemma remove_script_distinct: "distinct (ids d) \<Longrightarrow> distinct (ids (remove_script d s))"
  by (simp add: remove_script_def distinct_ids_removeChild split: option.splits)

lemma remove_script_descendants:
  "y \<in> set (descendants (remove_script d s)) \<Longrightarrow>
   \<exists>x \<in> set (descendants d).
     nodeId x = nodeId y \<and> localName x = localName y \<and> attributes x = attributes y"
proof (cases "parentNode d (nodeId s)")
  case None
  assume "y \<in> set (descendants (remove_script d s))"
  with None show ?thesis by (auto simp: remove_script_def)
next
  case (Some p)
  assume "y \<in> set (descendants (remove_script d s))"
  with Some have "y \<in> set (descendants (removeChild p (nodeId s) d))"
    by (simp add: remove_script_def)
  from descendants_removeChild [OF this] show ?thesis by auto
qed

lemma remove_script_gone:
  assumes "distinct (ids d)"
  shows "nodeId s \<notin> nodeId ` set (descendants (remove_script d s))"
proof (cases "parents_of d (nodeId s)")
  case Nil
  with descendant_parents_of [of "nodeId s" d] show ?thesis
    by (auto simp: remove_script_def parentNode_def)
next
  case (Cons p ps)
  with removed_child_gone [OF assms Cons] show ?thesis
    by (simp add: remove_script_def parentNode_def)
qed

lemma foldl_remove_script:
  assumes "distinct (ids d)"
  shows "distinct (ids (foldl remove_script d scripts))
    \<and> (\<forall>y \<in> set (descendants (foldl remove_script d scripts)).
          \<exists>x \<in> set (descendants d).
            nodeId x = nodeId y \<and> localName x = localName y \<and> attributes x = attributes y)
    \<and> (\<forall>s \<in> set scripts. nodeId s \<notin> nodeId ` set (descendants (foldl remove_script d scripts)))"
  using assms
proof (induction scripts arbitrary: d)
  case Nil
  then show ?case by auto
next
  case (Cons s scripts)
  let ?d1 = "remove_script d s"
  let ?d2 = "foldl remove_script ?d1 scripts"
  from Cons.prems have d1: "distinct (ids ?d1)" by (rule remove_script_distinct)
  note ih = Cons.IH [OF d1]
  have older: "\<exists>x \<in> set (descendants ?d1).
      nodeId x = nodeId y \<and> localName x = localName y \<and> attributes x = attributes y"
    if "y \<in> set (descendants ?d2)" for y
    using ih that by blast
  have a: "\<exists>x \<in> set (descendants d).
      nodeId x = nodeId y \<and> localName x = localName y \<and> attributes x = attributes y"
    if "y \<in> set (descendants ?d2)" for y
  proof -
    from older [OF that] obtain x1 where x1: "x1 \<in> set (descendants ?d1)"
      "nodeId x1 = nodeId y" "localName x1 = localName y" "attributes x1 = attributes y"
      by blast
    from remove_script_descendants [OF x1(1)] x1(2-) show ?thesis by auto
  qed
  have b: "nodeId s \<notin> nodeId ` set (descendants ?d2)"
  proof
    assume "nodeId s \<in> nodeId ` set (descendants ?d2)"
    then obtain y where y: "y \<in> set (descendants ?d2)" "nodeId y = nodeId s" by auto
    from older [OF y(1)] obtain x where "x \<in> set (descendants ?d1)" "nodeId x = nodeId y"
      by blast
    with y(2) have "nodeId s \<in> nodeId ` set (descendants ?d1)"
      by (metis imageI)
    with remove_script_gone [OF Cons.prems, of s] show False by simp
  qed
  from ih a b show ?case by simp
qed

lemma matches_cong:
  "localName x = localName y \<Longrightarrow> attributes x = attributes y \<Longrightarrow> matches sel x = matches sel y"
  by (cases sel) (simp add: getAttribute_def)

lemma cleanup_no_match:
  assumes "well_formed doc"
  shows "querySelectorAll (cleanup doc) particles_selector = []"
proof -
  let ?L = "querySelectorAll doc particles_selector"
  from assms have d: "distinct (ids doc)" by (simp add: well_formed_ids)
  note f = foldl_remove_script [OF d, of ?L]
  have "\<not> matches particles_selector y" if y: "y \<in> set (descendants (cleanup doc))" for y
  proof
    assume m: "matches particles_selector y"
    from f y obtain x where x: "x \<in> set (descendants doc)" "nodeId x = nodeId y"
      "localName x = localName y" "attributes x = attributes y"
      unfolding cleanup_def by blast
    from matches_cong [OF x(3,4)] m have "matches particles_selector x" by simp
    with x(1) have "x \<in> set ?L" by (simp add: querySelectorAll_def)
    with f have "nodeId x \<notin> nodeId ` set (descendants (cleanup doc))"
      unfolding cleanup_def by blast
    with y x(2) show False by force
  qed
  then show ?thesis
    by (simp add: querySelectorAll_def filter_empty_conv)
qed

lemma cdn_script_matches: "is_cdn_script n \<Longrightarrow> matches particles_selector n"
proof -
  have "cdn_url = js ''https://cdn.jsdelivr.net/particles.js/2.0.0/'' @ js ''particles.min.js'' @ []"
    by (simp add: cdn_url_def js_def)
  then have "sublist (js ''particles.min.js'') cdn_url"
    by (metis sublist_appendI)
  moreover have "js ''particles.min.js'' \<noteq> []" by (simp add: js_def)
  moreover assume "is_cdn_script n"
  ultimately show ?thesis
    by (simp add: is_cdn_script_def particles_selector_def)
qed

text \<open>
  Claim C8. In a document, where every node has an identity of its own, no script element
  whose source is the CDN address is left after the cleanup; indeed no element that the
  cleanup's selector matches is left.
\<close>

theorem cleanup_removes_scripts:
  "well_formed doc \<Longrightarrow>
     querySelectorAll (cleanup doc) particles_selector = []
     \<and> filter is_cdn_script (descendants (cleanup doc)) = []"
proof -
  assume wf: "well_formed doc"
  from cleanup_no_match [OF wf]
  have "\<not> matches particles_selector y" if "y \<in> set (descendants (cleanup doc))" for y
    using that by (simp add: querySelectorAll_def filter_empty_conv)
  with cdn_script_matches have "\<not> is_cdn_script y" if "y \<in> set (descendants (cleanup doc))" for y
    using that by blast
  with cleanup_no_match [OF wf] show ?thesis
    by (simp add: filter_empty_conv)
qed

theorem cleanup_removes_scripts_witness:
  "(let doc0 = Element 0 (js ''#document'') []
       [Element 1 (js ''html'') []
         [Element 2 (js ''head'') [] [Element 5 (js ''script'') [(js ''src'', js ''/app.js'')] []],
          Element 3 (js ''body'') [] [Element 4 (js ''div'') [(js ''id'', js ''particles-js'')] []]]];
        mounted = loadParticlesScript 3 7 (loadParticlesScript 3 6 doc0)
    in well_formed mounted
       \<and> map nodeId (filter is_cdn_script (descendants mounted)) = [6, 7]
       \<and> querySelectorAll (cleanup mounted) particles_selector = []
       \<and> filter is_cdn_script (descendants (cleanup mounted)) = []
       \<and> cleanup mounted = doc0)"
proof -
  let ?doc0 = "Element 0 (js ''#document'') []
       [Element 1 (js ''html'') []
         [Element 2 (js ''head'') [] [Element 5 (js ''script'') [(js ''src'', js ''/app.js'')] []],
          Element 3 (js ''body'') [] [Element 4 (js ''div'') [(js ''id'', js ''particles-js'')] []]]]"
  let ?mounted = "loadParticlesScript 3 7 (loadParticlesScript 3 6 ?doc0)"
  have wf: "well_formed ?mounted"
    by (simp add: well_formed_def loadParticlesScript_def)
  have found: "map nodeId (filter is_cdn_script (descendants ?mounted)) = [6, 7]"
    by (simp add: is_cdn_script_def loadParticlesScript_def getAttribute_def js_def cdn_url_def)
  have result: "cleanup ?mounted = ?doc0"
    by (simp add: cleanup_def remove_script_def parentNode_def querySelectorAll_def
        particles_selector_def loadParticlesScript_def getAttribute_def js_def cdn_url_def
        sublist_code)
  from cleanup_removes_scripts [OF wf] wf found result show ?thesis
    by (simp add: Let_def)
qed

end
